theory Spec2Isabelle
  imports Main "HOL-Library.Word" "HOL-Library.Sublist"
begin

unbundle bit_operations_syntax

section \<open>Data model\<close>

text \<open>
  Channels are \<open>uint8_t\<close>. The constants \<open>kHighNibble\<close> and \<open>kLowNibble\<close> are C++
  \<open>int\<close>s, so the channel expressions are computed after integer promotion and
  narrowed back to eight bits on assignment. All promoted values are non-negative and
  below \<open>2 ^ 8\<close>, so a 32-bit word stands for \<open>int\<close>.
\<close>

type_synonym uint8_t = "8 word"
type_synonym uint64_t = "64 word"
type_synonym c_int = "32 word"

datatype ImageType = kJpeg | kPng | kUnknown

datatype RetCode = kSuccess | kInvalidFileFormat | kFileNotFound | kInvalidDimensions

text \<open>
  \<open>boost::gil::rgb8_pixel_t\<close>: three 8-bit channels, read and written by index. The
  source only ever uses the indices 0, 1 and 2.
\<close>

datatype rgb8_pixel_t = rgb8_pixel_t (red: uint8_t) (green: uint8_t) (blue: uint8_t)

fun at_c :: "rgb8_pixel_t \<Rightarrow> nat \<Rightarrow> uint8_t" where
  "at_c (rgb8_pixel_t r g b) i = (if i = 0 then r else if i = 1 then g else b)"

fun set_c :: "rgb8_pixel_t \<Rightarrow> nat \<Rightarrow> uint8_t \<Rightarrow> rgb8_pixel_t" where
  "set_c (rgb8_pixel_t r g b) i v =
     (if i = 0 then rgb8_pixel_t v g b
      else if i = 1 then rgb8_pixel_t r v b
      else rgb8_pixel_t r g v)"

text \<open>
  \<open>boost::gil::rgb8_image_t\<close>: the dimensions and the pixels, row by row. The view
  operator \<open>view(col, row)\<close> is \<open>view_at\<close> for reading and \<open>view_set\<close> for assignment.
  Dimensions are \<open>ptrdiff_t\<close> in GIL and the loop counters are \<open>int\<close>; image sizes
  stay far below either bound, so both are natural numbers here. A GIL image always
  holds \<open>height\<close> rows of \<open>width\<close> pixels, which is \<open>well_formed\<close>; outside these
  bounds \<open>view_at\<close> is unspecified, as the access is undefined in C++.
\<close>

record rgb8_image_t =
  width :: nat
  height :: nat
  rows :: "rgb8_pixel_t list list"

definition well_formed :: "rgb8_image_t \<Rightarrow> bool" where
  "well_formed img \<longleftrightarrow>
     length (rows img) = height img \<and> list_all (\<lambda>r. length r = width img) (rows img)"

definition view_at :: "rgb8_image_t \<Rightarrow> nat \<Rightarrow> nat \<Rightarrow> rgb8_pixel_t" where
  "view_at img col row = rows img ! row ! col"

definition view_set :: "rgb8_image_t \<Rightarrow> nat \<Rightarrow> nat \<Rightarrow> rgb8_pixel_t \<Rightarrow> rgb8_image_t" where
  "view_set img col row p = img\<lparr>rows := (rows img)[row := (rows img ! row)[col := p]]\<rparr>"

text \<open>
  The file system: a path is absent, present but not openable for reading, or
  readable with its bytes. \<open>std::filesystem::exists\<close> is \<open>fs path \<noteq> None\<close>.
\<close>

datatype file_t = Unreadable | Readable "uint8_t list"

type_synonym filesystem = "string \<rightharpoonup> file_t"

text \<open>
  The JPEG and PNG codecs of Boost.GIL are outside the repository and are parameters
  of the model. Decoding or encoding that throws is \<open>None\<close>.
\<close>

datatype format_tag = jpeg_tag | png_tag

record codec =
  read_and_convert_image :: "format_tag \<Rightarrow> uint8_t list \<Rightarrow> rgb8_image_t option"
  write_view :: "format_tag \<Rightarrow> rgb8_image_t \<Rightarrow> uint8_t list option"

text \<open>A call either returns a \<open>RetCode\<close> or is left by an exception of the codec.\<close>

datatype outcome = Returned RetCode | Threw

section \<open>Format sniffer\<close>

definition kHeaderSize :: nat where "kHeaderSize = 8"
definition kByteShift :: nat where "kByteShift = 8"
definition kPngSignature :: uint64_t where "kPngSignature = 0x89504E470D0A1A0A"
definition kJpegSignature :: uint64_t where "kJpegSignature = 0xFFD8000000000000"

text \<open>
  \<open>ifs.read(&buffer[0], buffer.size())\<close>: the bytes available overwrite the front of
  the buffer; cells for which the file has no byte keep their value.
\<close>

fun istream_read :: "uint8_t list \<Rightarrow> uint8_t list \<Rightarrow> uint8_t list" where
  "istream_read (b # buffer) (c # contents) = c # istream_read buffer contents"
| "istream_read buffer contents = buffer"

definition GetImageType :: "filesystem \<Rightarrow> string \<Rightarrow> ImageType" where
  "GetImageType fs filename =
     (case fs filename of
        None \<Rightarrow> kUnknown
      | Some Unreadable \<Rightarrow> kUnknown
      | Some (Readable contents) \<Rightarrow>
          (let buffer = istream_read (replicate kHeaderSize 0) contents;
               word = fold (\<lambda>c word. push_bit kByteShift word OR ucast c) buffer (0 :: uint64_t)
           in if word = kPngSignature then kPng
              else if word AND kJpegSignature = kJpegSignature then kJpeg
              else kUnknown))"

section \<open>Codec adapter\<close>

definition ReadImage :: "codec \<Rightarrow> filesystem \<Rightarrow> string \<Rightarrow> ImageType \<Rightarrow> rgb8_image_t option" where
  "ReadImage gil fs filename type =
     (case fs filename of
        Some (Readable contents) \<Rightarrow>
          (if type = kJpeg then read_and_convert_image gil jpeg_tag contents
           else read_and_convert_image gil png_tag contents)
      | _ \<Rightarrow> None)"

definition WriteImage ::
  "codec \<Rightarrow> filesystem \<Rightarrow> rgb8_image_t \<Rightarrow> string \<Rightarrow> ImageType \<Rightarrow> filesystem option" where
  "WriteImage gil fs image' filename type =
     (case (if type = kJpeg then write_view gil jpeg_tag image'
            else write_view gil png_tag image') of
        None \<Rightarrow> None
      | Some bytes \<Rightarrow> Some (fs(filename \<mapsto> Readable bytes)))"

section \<open>Pixel transform\<close>

definition kHighNibble :: c_int where "kHighNibble = 0xF0"
definition kLowNibble :: c_int where "kLowNibble = 0x0F"

definition MergePixels :: "rgb8_pixel_t \<Rightarrow> rgb8_pixel_t \<Rightarrow> rgb8_pixel_t" where
  "MergePixels cover_pix secret_pix =
     fold (\<lambda>i merged_pix.
             set_c merged_pix i
               (ucast (((ucast (at_c cover_pix i) :: c_int) AND kHighNibble)
                       OR drop_bit 4 ((ucast (at_c secret_pix i) :: c_int) AND kHighNibble))))
          [0, 1, 2] (rgb8_pixel_t 0 0 0)"

definition UnmergePixels :: "rgb8_pixel_t \<Rightarrow> rgb8_pixel_t" where
  "UnmergePixels pixel =
     fold (\<lambda>i unmerged_pix.
             set_c unmerged_pix i
               (ucast (push_bit 4 ((ucast (at_c pixel i) :: c_int) AND kLowNibble))))
          [0, 1, 2] (rgb8_pixel_t 0 0 0)"

text \<open>\<open>std::string::ends_with\<close> and the extension test of \<open>Unmerge\<close>.\<close>

definition ends_with :: "string \<Rightarrow> string \<Rightarrow> bool" where
  "ends_with filename s \<longleftrightarrow>
     length s \<le> length filename \<and> drop (length filename - length s) filename = s"

definition kExtensions :: "string list" where
  "kExtensions = [''.jpg'', ''.jpeg'', ''.JPG'', ''.JPEG'']"

definition HasJpegExtension :: "string \<Rightarrow> bool" where
  "HasJpegExtension filename = list_ex (\<lambda>s. ends_with filename s) kExtensions"

section \<open>Merge and Unmerge\<close>

definition kBlackPixel :: rgb8_pixel_t where
  "kBlackPixel = rgb8_pixel_t 0 0 0"

text \<open>The inner loop of \<open>Merge\<close> over \<open>col\<close>, for a fixed \<open>row\<close>.\<close>

function merge_cols :: "rgb8_image_t \<Rightarrow> nat \<Rightarrow> nat \<Rightarrow> rgb8_image_t \<Rightarrow> rgb8_image_t" where
  "merge_cols secret_img row col output_img =
     (if col < width output_img then
        merge_cols secret_img row (col + 1)
          (if row \<ge> height secret_img \<or> col \<ge> width secret_img then
             view_set output_img col row
               (MergePixels (view_at output_img col row) kBlackPixel)
           else
             view_set output_img col row
               (MergePixels (view_at output_img col row) (view_at secret_img col row)))
      else output_img)"
  by pat_completeness auto
termination
  by (relation "measure (\<lambda>(secret_img, row, col, output_img). width output_img - col)")
     (auto simp add: view_set_def)

declare merge_cols.simps [simp del]

text \<open>The outer loop of \<open>Merge\<close> over \<open>row\<close>.\<close>

function merge_rows :: "rgb8_image_t \<Rightarrow> nat \<Rightarrow> rgb8_image_t \<Rightarrow> rgb8_image_t" where
  "merge_rows secret_img row output_img =
     (if row < height output_img then
        merge_rows secret_img (row + 1) (merge_cols secret_img row 0 output_img)
      else output_img)"
  by pat_completeness auto
termination
proof (relation "measure (\<lambda>(secret_img, row, output_img). height output_img - row)")
  show "wf (measure (\<lambda>(secret_img, row, output_img). height output_img - row))"
    by simp
next
  fix secret_img :: rgb8_image_t and row :: nat and output_img :: rgb8_image_t
  assume lt: "row < height output_img"
  have "height (merge_cols s r c out) = height out" for s r c out
    by (induction s r c out rule: merge_cols.induct)
       (subst merge_cols.simps, simp add: view_set_def)
  with lt show "((secret_img, row + 1, merge_cols secret_img row 0 output_img),
                 (secret_img, row, output_img))
                \<in> measure (\<lambda>(secret_img, row, output_img). height output_img - row)"
    by simp
qed

declare merge_rows.simps [simp del]

definition Merge ::
  "codec \<Rightarrow> filesystem \<Rightarrow> string \<Rightarrow> string \<Rightarrow> string \<Rightarrow> outcome \<times> filesystem" where
  "Merge gil fs cover secret outfile =
     (if fs cover = None \<or> fs secret = None then (Returned kFileNotFound, fs)
      else
        let cover_img_t = GetImageType fs cover;
            secret_img_t = GetImageType fs secret
        in if cover_img_t = kUnknown \<or> secret_img_t = kUnknown
           then (Returned kInvalidFileFormat, fs)
           else
             (case ReadImage gil fs cover cover_img_t of
                None \<Rightarrow> (Threw, fs)
              | Some cover_img \<Rightarrow>
                  (case ReadImage gil fs secret secret_img_t of
                     None \<Rightarrow> (Threw, fs)
                   | Some secret_img \<Rightarrow>
                       if height secret_img > height cover_img
                          \<or> width secret_img > width cover_img
                       then (Returned kInvalidDimensions, fs)
                       else
                         let output_img = merge_rows secret_img 0 cover_img
                         in (case WriteImage gil fs output_img outfile kPng of
                               None \<Rightarrow> (Threw, fs)
                             | Some fs' \<Rightarrow> (Returned kSuccess, fs')))))"

text \<open>The loops of \<open>Unmerge\<close>: the output starts as a copy of the decoded input.\<close>

function unmerge_cols :: "rgb8_image_t \<Rightarrow> nat \<Rightarrow> nat \<Rightarrow> rgb8_image_t \<Rightarrow> rgb8_image_t" where
  "unmerge_cols secret_img row col output_img =
     (if col < width output_img then
        unmerge_cols secret_img row (col + 1)
          (view_set output_img col row (UnmergePixels (view_at secret_img col row)))
      else output_img)"
  by pat_completeness auto
termination
  by (relation "measure (\<lambda>(secret_img, row, col, output_img). width output_img - col)")
     (auto simp add: view_set_def)

declare unmerge_cols.simps [simp del]

function unmerge_rows :: "rgb8_image_t \<Rightarrow> nat \<Rightarrow> rgb8_image_t \<Rightarrow> rgb8_image_t" where
  "unmerge_rows secret_img row output_img =
     (if row < height output_img then
        unmerge_rows secret_img (row + 1) (unmerge_cols secret_img row 0 output_img)
      else output_img)"
  by pat_completeness auto
termination
proof (relation "measure (\<lambda>(secret_img, row, output_img). height output_img - row)")
  show "wf (measure (\<lambda>(secret_img, row, output_img). height output_img - row))"
    by simp
next
  fix secret_img :: rgb8_image_t and row :: nat and output_img :: rgb8_image_t
  assume lt: "row < height output_img"
  have "height (unmerge_cols s r c out) = height out" for s r c out
    by (induction s r c out rule: unmerge_cols.induct)
       (subst unmerge_cols.simps, simp add: view_set_def)
  with lt show "((secret_img, row + 1, unmerge_cols secret_img row 0 output_img),
                 (secret_img, row, output_img))
                \<in> measure (\<lambda>(secret_img, row, output_img). height output_img - row)"
    by simp
qed

declare unmerge_rows.simps [simp del]

definition Unmerge :: "codec \<Rightarrow> filesystem \<Rightarrow> string \<Rightarrow> string \<Rightarrow> outcome \<times> filesystem" where
  "Unmerge gil fs secret outfile =
     (if fs secret = None then (Returned kFileNotFound, fs)
      else
        let secret_img_t = GetImageType fs secret
        in if secret_img_t = kUnknown then (Returned kInvalidFileFormat, fs)
           else
             (case ReadImage gil fs secret secret_img_t of
                None \<Rightarrow> (Threw, fs)
              | Some secret_img \<Rightarrow>
                  let output_img = unmerge_rows secret_img 0 secret_img
                  in (case (if HasJpegExtension outfile
                            then WriteImage gil fs output_img outfile kJpeg
                            else WriteImage gil fs output_img outfile kPng) of
                        None \<Rightarrow> (Threw, fs)
                      | Some fs' \<Rightarrow> (Returned kSuccess, fs'))))"

section \<open>Example inputs\<close>

text \<open>
  A two by two cover, a one by one secret, and a small codec and file system that
  hold them: the concrete inputs at which the theorems below are instantiated.
\<close>

definition example_cover :: rgb8_image_t where
  "example_cover =
     \<lparr>width = 2, height = 2,
      rows = [[rgb8_pixel_t 0x12 0x34 0x56, rgb8_pixel_t 0xFF 0xFF 0xFF],
              [rgb8_pixel_t 0x00 0x00 0x00, rgb8_pixel_t 0x9A 0xBC 0xDE]]\<rparr>"

definition example_secret :: rgb8_image_t where
  "example_secret = \<lparr>width = 1, height = 1, rows = [[rgb8_pixel_t 0xAB 0xCD 0xEF]]\<rparr>"

definition example_jpeg_bytes :: "uint8_t list" where
  "example_jpeg_bytes = [0xFF, 0xD8, 0xFF, 0xE0, 0x00, 0x10, 0x4A, 0x46, 0x01]"

definition example_png_bytes :: "uint8_t list" where
  "example_png_bytes = [0x89, 0x50, 0x4E, 0x47, 0x0D, 0x0A, 0x1A, 0x0A, 0x02]"

definition example_codec :: codec where
  "example_codec =
     \<lparr>read_and_convert_image =
        (\<lambda>tag bytes.
           if tag = jpeg_tag \<and> bytes = example_jpeg_bytes then Some example_cover
           else if tag = png_tag \<and> bytes = example_png_bytes then Some example_secret
           else None),
      write_view =
        (\<lambda>tag img.
           Some ((if tag = jpeg_tag then [0xFF, 0xD8] else [0x89, 0x50, 0x4E, 0x47])
                 @ concat (map (\<lambda>p. [red p, green p, blue p]) (concat (rows img)))))\<rparr>"

definition example_fs :: filesystem where
  "example_fs = [''cover.jpg'' \<mapsto> Readable example_jpeg_bytes,
                 ''secret.png'' \<mapsto> Readable example_png_bytes]"

section \<open>Bits of the nibble masks\<close>

lemma nibble_lo_numeral: "(0x0F :: 'a::semiring_bit_operations) = mask 4"
  by (simp add: mask_numeral)

lemma nibble_hi_numeral: "(0xF0 :: 'a::semiring_bit_operations) = push_bit 4 (mask 4)"
  by (simp add: mask_numeral push_bit_eq_mult)

lemma bit_0F [simp]:
  "bit (0x0F :: 'a::semiring_bit_operations) n \<longleftrightarrow> possible_bit TYPE('a) n \<and> n < 4"
  by (subst nibble_lo_numeral) (simp only: bit_mask_iff)

lemma bit_F0 [simp]:
  "bit (0xF0 :: 'a::semiring_bit_operations) n \<longleftrightarrow> possible_bit TYPE('a) n \<and> 4 \<le> n \<and> n < 8"
  by (subst nibble_hi_numeral)
     (auto simp only: bit_push_bit_iff bit_mask_iff
           intro: possible_bit_less_imp [where i = n and j = "n - 4"])

section \<open>The pixel transform on one channel\<close>

text \<open>
  The promoted \<open>int\<close> expression of \<open>MergePixels\<close>, narrowed to \<open>uint8_t\<close>, is the
  same expression computed on eight bits: nothing is lost by the narrowing.
\<close>

lemma merge_channel_narrow:
  "(ucast (((ucast (c :: uint8_t) :: c_int) AND 0xF0)
           OR drop_bit 4 ((ucast (s :: uint8_t) :: c_int) AND 0xF0)) :: uint8_t)
     = (c AND 0xF0) OR drop_bit 4 (s AND 0xF0)"
  by (rule bit_word_eqI) (auto simp add: bit_simps)

lemma unmerge_channel_narrow:
  "(ucast (push_bit 4 ((ucast (m :: uint8_t) :: c_int) AND 0x0F)) :: uint8_t)
     = push_bit 4 (m AND 0x0F)"
  by (rule bit_word_eqI) (auto simp add: bit_simps)

lemma MergePixels_channels:
  "MergePixels (rgb8_pixel_t c0 c1 c2) (rgb8_pixel_t s0 s1 s2) =
     rgb8_pixel_t ((c0 AND 0xF0) OR drop_bit 4 (s0 AND 0xF0))
                  ((c1 AND 0xF0) OR drop_bit 4 (s1 AND 0xF0))
                  ((c2 AND 0xF0) OR drop_bit 4 (s2 AND 0xF0))"
  unfolding MergePixels_def kHighNibble_def
  by (simp only: fold_simps at_c.simps set_c.simps merge_channel_narrow id_apply o_apply) simp

lemma UnmergePixels_channels:
  "UnmergePixels (rgb8_pixel_t m0 m1 m2) =
     rgb8_pixel_t (push_bit 4 (m0 AND 0x0F)) (push_bit 4 (m1 AND 0x0F)) (push_bit 4 (m2 AND 0x0F))"
  unfolding UnmergePixels_def kLowNibble_def
  by (simp only: fold_simps at_c.simps set_c.simps unmerge_channel_narrow id_apply o_apply) simp

lemma merged_low_nibble:
  "((c AND 0xF0) OR drop_bit 4 (s AND 0xF0)) AND 0x0F = drop_bit 4 ((s :: uint8_t) AND 0xF0)"
  by (rule bit_word_eqI) (auto simp add: bit_simps)

lemma merged_high_nibble:
  "((c AND 0xF0) OR drop_bit 4 (s AND 0xF0)) AND 0xF0 = (c :: uint8_t) AND 0xF0"
  by (rule bit_word_eqI) (auto simp add: bit_simps)

lemma unmerge_merged_channel:
  "push_bit 4 (((c AND 0xF0) OR drop_bit 4 (s AND 0xF0)) AND 0x0F) = (s :: uint8_t) AND 0xF0"
  by (rule bit_word_eqI) (auto simp add: bit_simps simp del: push_bit_and push_bit_or)

lemma unmerged_low_nibble:
  "push_bit 4 ((m :: uint8_t) AND 0x0F) AND 0x0F = 0"
  by (rule bit_word_eqI) (auto simp add: bit_simps)

lemma at_c_channels:
  "at_c (rgb8_pixel_t r g b) 0 = r" "at_c (rgb8_pixel_t r g b) 1 = g"
  "at_c (rgb8_pixel_t r g b) 2 = b"
  by simp_all

section \<open>Claims about the pixel transform\<close>

text \<open>
  C1. Round trip: unmerging a merged pixel gives back, in every channel, the high
  nibble of the secret channel with a zero low nibble, \<open>s AND 0xF0\<close>, whatever the
  cover and secret channel values are.
\<close>

theorem unmerge_merge_roundtrip:
  "UnmergePixels (MergePixels (rgb8_pixel_t c0 c1 c2) (rgb8_pixel_t s0 s1 s2)) =
     rgb8_pixel_t (s0 AND 0xF0) (s1 AND 0xF0) (s2 AND 0xF0)"
  by (simp only: MergePixels_channels UnmergePixels_channels unmerge_merged_channel)

text \<open>
  C4. Each channel of the merged pixel is \<open>(c AND 0xF0) OR ((s AND 0xF0) >> 4)\<close> of
  the cover and secret channels of the same index only; its high nibble is the cover
  channel's high nibble and its low nibble is the secret channel's high nibble shifted
  down by four.
\<close>

theorem MergePixels_spec:
  "MergePixels (rgb8_pixel_t c0 c1 c2) (rgb8_pixel_t s0 s1 s2) =
     rgb8_pixel_t ((c0 AND 0xF0) OR drop_bit 4 (s0 AND 0xF0))
                  ((c1 AND 0xF0) OR drop_bit 4 (s1 AND 0xF0))
                  ((c2 AND 0xF0) OR drop_bit 4 (s2 AND 0xF0))
   \<and> at_c (MergePixels (rgb8_pixel_t c0 c1 c2) (rgb8_pixel_t s0 s1 s2)) 0 AND 0xF0 = c0 AND 0xF0
   \<and> at_c (MergePixels (rgb8_pixel_t c0 c1 c2) (rgb8_pixel_t s0 s1 s2)) 1 AND 0xF0 = c1 AND 0xF0
   \<and> at_c (MergePixels (rgb8_pixel_t c0 c1 c2) (rgb8_pixel_t s0 s1 s2)) 2 AND 0xF0 = c2 AND 0xF0
   \<and> at_c (MergePixels (rgb8_pixel_t c0 c1 c2) (rgb8_pixel_t s0 s1 s2)) 0 AND 0x0F
       = drop_bit 4 (s0 AND 0xF0)
   \<and> at_c (MergePixels (rgb8_pixel_t c0 c1 c2) (rgb8_pixel_t s0 s1 s2)) 1 AND 0x0F
       = drop_bit 4 (s1 AND 0xF0)
   \<and> at_c (MergePixels (rgb8_pixel_t c0 c1 c2) (rgb8_pixel_t s0 s1 s2)) 2 AND 0x0F
       = drop_bit 4 (s2 AND 0xF0)"
  unfolding MergePixels_channels
  by (simp only: at_c_channels merged_high_nibble merged_low_nibble simp_thms)

text \<open>
  C5. Each channel of the unmerged pixel is \<open>(m AND 0x0F) << 4\<close> of the input channel
  of the same index: the low nibble promoted to the high nibble, with a zero low
  nibble in the output.
\<close>

theorem UnmergePixels_spec:
  "UnmergePixels (rgb8_pixel_t m0 m1 m2) =
     rgb8_pixel_t (push_bit 4 (m0 AND 0x0F)) (push_bit 4 (m1 AND 0x0F)) (push_bit 4 (m2 AND 0x0F))
   \<and> at_c (UnmergePixels (rgb8_pixel_t m0 m1 m2)) 0 AND 0x0F = 0
   \<and> at_c (UnmergePixels (rgb8_pixel_t m0 m1 m2)) 1 AND 0x0F = 0
   \<and> at_c (UnmergePixels (rgb8_pixel_t m0 m1 m2)) 2 AND 0x0F = 0"
  unfolding UnmergePixels_channels
  by (simp only: at_c_channels unmerged_low_nibble simp_thms)

text \<open>
  C10. The merged pixel depends only on the high nibbles of the cover and secret
  channels: two cover pixels and two secret pixels that agree on every channel's high
  nibble merge to the same pixel.
\<close>

theorem MergePixels_high_nibbles_only:
  assumes "c0 AND 0xF0 = c0' AND 0xF0" and "c1 AND 0xF0 = c1' AND 0xF0"
      and "c2 AND 0xF0 = c2' AND 0xF0"
      and "s0 AND 0xF0 = s0' AND 0xF0" and "s1 AND 0xF0 = s1' AND 0xF0"
      and "s2 AND 0xF0 = s2' AND 0xF0"
  shows "MergePixels (rgb8_pixel_t c0 c1 c2) (rgb8_pixel_t s0 s1 s2) =
         MergePixels (rgb8_pixel_t c0' c1' c2') (rgb8_pixel_t s0' s1' s2')"
  unfolding MergePixels_channels using assms by (simp only:)

theorem MergePixels_high_nibbles_only_witness:
  "(0x12 :: uint8_t) AND 0xF0 = 0x1F AND 0xF0 \<and> (0x34 :: uint8_t) AND 0xF0 = 0x30 AND 0xF0
   \<and> (0x56 :: uint8_t) AND 0xF0 = 0x59 AND 0xF0
   \<and> (0xAB :: uint8_t) AND 0xF0 = 0xA0 AND 0xF0 \<and> (0xCD :: uint8_t) AND 0xF0 = 0xC1 AND 0xF0
   \<and> (0xEF :: uint8_t) AND 0xF0 = 0xE7 AND 0xF0
   \<and> MergePixels (rgb8_pixel_t 0x12 0x34 0x56) (rgb8_pixel_t 0xAB 0xCD 0xEF) =
       MergePixels (rgb8_pixel_t 0x1F 0x30 0x59) (rgb8_pixel_t 0xA0 0xC1 0xE7)"
  using MergePixels_high_nibbles_only
          [of "0x12" "0x1F" "0x34" "0x30" "0x56" "0x59" "0xAB" "0xA0" "0xCD" "0xC1" "0xEF" "0xE7"]
  by simp

section \<open>The header word of the format sniffer\<close>

lemma header_buffer: "replicate kHeaderSize (0 :: uint8_t) = [0, 0, 0, 0, 0, 0, 0, 0]"
  by (simp add: kHeaderSize_def numeral_eq_Suc)

lemmas GetImageType_eval =
  GetImageType_def header_buffer kByteShift_def kPngSignature_def kJpegSignature_def Let_def

lemma istream_read_zero:
  "istream_read (replicate n 0) contents = take n contents @ replicate (n - length contents) 0"
proof (induction n arbitrary: contents)
  case 0
  then show ?case by simp
next
  case (Suc n)
  then show ?case by (cases contents) simp_all
qed

lemma header_fold_snoc:
  "fold (\<lambda>c word. push_bit kByteShift word OR ucast c) (bs @ [c]) (w :: uint64_t) =
     push_bit 8 (fold (\<lambda>c word. push_bit kByteShift word OR ucast c) bs w) OR ucast (c :: uint8_t)"
  by (simp add: kByteShift_def)

lemma bit_header_fold:
  "bit (fold (\<lambda>c word. push_bit kByteShift word OR ucast c) bs (w :: uint64_t)) n \<longleftrightarrow>
     n < 64 \<and> (if n < 8 * length bs
               then bit ((bs :: uint8_t list) ! (length bs - Suc (n div 8))) (n mod 8)
               else bit w (n - 8 * length bs))"
proof (induction bs arbitrary: n rule: rev_induct)
  case Nil
  then show ?case
    by (auto dest: bit_imp_le_length)
next
  case (snoc c bs)
  let ?word = "\<lambda>bs. fold (\<lambda>c word. push_bit kByteShift word OR ucast c) bs w"
  show ?case
  proof (cases "n < 8")
    case True
    then show ?thesis
      by (simp add: header_fold_snoc bit_simps kByteShift_def)
  next
    case False
    then obtain m where n: "n = m + 8"
      by (metis le_add_diff_inverse2 not_less)
    have d: "(m + 8) div 8 = Suc (m div 8)" "(m + 8) mod 8 = m mod 8"
      by simp_all
    have w: "bit (?word (bs @ [c])) n \<longleftrightarrow> n < 64 \<and> bit (?word bs) m"
      by (auto simp add: header_fold_snoc bit_simps n kByteShift_def dest: bit_imp_le_length)
    show ?thesis
    proof (cases "m < 8 * length bs")
      case True
      then have "m div 8 < length bs"
        by (simp add: less_mult_imp_div_less mult.commute)
      then have "length bs - Suc (m div 8) < length bs"
        by simp
      with True show ?thesis
        unfolding w snoc.IH by (auto simp add: n d nth_append)
    next
      case False
      then show ?thesis
        unfolding w snoc.IH by (auto simp add: n)
    qed
  qed
qed

lemma GetImageType_readable:
  assumes "fs filename = Some (Readable contents)"
  shows "GetImageType fs filename =
          (let word = fold (\<lambda>c word. push_bit kByteShift word OR ucast c)
                        (take 8 contents @ replicate (8 - length contents) 0) (0 :: uint64_t)
           in if word = kPngSignature then kPng
              else if word AND kJpegSignature = kJpegSignature then kJpeg
              else kUnknown)"
  using assms by (simp add: GetImageType_def istream_read_zero kHeaderSize_def Let_def)

lemma short_header_not_png:
  assumes "length (contents :: uint8_t list) < 8"
  shows "fold (\<lambda>c word. push_bit kByteShift word OR ucast c)
           (take 8 contents @ replicate (8 - length contents) 0) (0 :: uint64_t) \<noteq> kPngSignature"
proof -
  define buf where "buf = take 8 contents @ replicate (8 - length contents) (0 :: uint8_t)"
  have "length buf = 8" and "buf ! 7 = 0"
    using assms by (simp_all add: buf_def nth_append)
  then have "\<not> bit (fold (\<lambda>c word. push_bit kByteShift word OR ucast c) buf (0 :: uint64_t)) 1"
    by (simp add: bit_header_fold)
  moreover have "bit kPngSignature 1"
    by (simp add: kPngSignature_def)
  ultimately show ?thesis
    unfolding buf_def by metis
qed

lemma very_short_header_not_jpeg:
  assumes "length (contents :: uint8_t list) < 2"
  shows "fold (\<lambda>c word. push_bit kByteShift word OR ucast c)
           (take 8 contents @ replicate (8 - length contents) 0) (0 :: uint64_t) AND kJpegSignature
         \<noteq> kJpegSignature"
proof -
  define buf where "buf = take 8 contents @ replicate (8 - length contents) (0 :: uint8_t)"
  have "length buf = 8" and "buf ! 1 = 0"
    using assms by (simp_all add: buf_def nth_append)
  then have "\<not> bit (fold (\<lambda>c word. push_bit kByteShift word OR ucast c) buf (0 :: uint64_t)) 51"
    by (simp add: bit_header_fold)
  then have "\<not> bit (fold (\<lambda>c word. push_bit kByteShift word OR ucast c) buf (0 :: uint64_t)
                     AND kJpegSignature) 51"
    by (simp add: bit_and_iff)
  moreover have "bit kJpegSignature 51"
    by (simp add: kJpegSignature_def)
  ultimately show ?thesis
    unfolding buf_def by metis
qed

lemma padded_header:
  assumes "length contents < 8"
  shows "take 8 (contents @ replicate (8 - length contents) (0 :: uint8_t))
           @ replicate (8 - length (contents @ replicate (8 - length contents) (0 :: uint8_t))) 0
         = take 8 contents @ replicate (8 - length contents) 0"
  using assms by simp

lemma bit_kJpegSignature:
  "bit kJpegSignature n \<longleftrightarrow> n \<in> {51, 52, 54, 55, 56, 57, 58, 59, 60, 61, 62, 63}"
proof (cases "48 \<le> n \<and> n < 64")
  case True
  define k where "k = n - 48"
  with True have n: "n = 48 + k" and k: "k < 16"
    by auto
  from k consider "k = 0" | "k = 1" | "k = 2" | "k = 3" | "k = 4" | "k = 5" | "k = 6" | "k = 7"
    | "k = 8" | "k = 9" | "k = 10" | "k = 11" | "k = 12" | "k = 13" | "k = 14" | "k = 15"
    by atomize_elim arith
  then show ?thesis
    unfolding n by cases (simp_all add: kJpegSignature_def)
next
  case False
  have e: "kJpegSignature = push_bit 48 0xFFD8"
    by (simp add: kJpegSignature_def)
  have "\<not> bit kJpegSignature n"
    using False by (subst e) (auto simp add: bit_push_bit_iff simp del: push_bit_numeral dest: bit_imp_le_length)
  with False show ?thesis
    by auto
qed

lemma byte_all_ones:
  "(b :: uint8_t) = 0xFF \<longleftrightarrow> bit b 0 \<and> bit b 1 \<and> bit b 2 \<and> bit b 3 \<and> bit b 4 \<and> bit b 5 \<and> bit b 6 \<and> bit b 7"
proof
  assume "b = 0xFF"
  then show "bit b 0 \<and> bit b 1 \<and> bit b 2 \<and> bit b 3 \<and> bit b 4 \<and> bit b 5 \<and> bit b 6 \<and> bit b 7"
    by simp
next
  assume a: "bit b 0 \<and> bit b 1 \<and> bit b 2 \<and> bit b 3 \<and> bit b 4 \<and> bit b 5 \<and> bit b 6 \<and> bit b 7"
  have m: "(0xFF :: uint8_t) = mask 8"
    by (simp add: mask_numeral)
  show "b = 0xFF"
  proof (subst m, rule bit_word_eqI)
    fix n :: nat
    assume "n < LENGTH(8)"
    then consider "n = 0" | "n = 1" | "n = 2" | "n = 3" | "n = 4" | "n = 5" | "n = 6" | "n = 7"
      by atomize_elim (simp, arith)
    then show "bit b n = bit (mask 8 :: uint8_t) n"
      using a by cases (simp_all add: bit_mask_iff)
  qed
qed

lemma masked_jpeg_iff:
  assumes "length (buf :: uint8_t list) = 8"
  shows "fold (\<lambda>c word. push_bit kByteShift word OR ucast c) buf (0 :: uint64_t)
           AND kJpegSignature = kJpegSignature
         \<longleftrightarrow> buf ! 0 = 0xFF \<and> bit (buf ! 1) 3 \<and> bit (buf ! 1) 4 \<and> bit (buf ! 1) 6 \<and> bit (buf ! 1) 7"
proof -
  let ?word = "fold (\<lambda>c word. push_bit kByteShift word OR ucast c) buf (0 :: uint64_t)"
  have "?word AND kJpegSignature = kJpegSignature
        \<longleftrightarrow> (\<forall>n \<in> {51, 52, 54, 55, 56, 57, 58, 59, 60, 61, 62, 63}. bit ?word n)"
  proof -
    have "possible_bit TYPE(uint64_t) n"
      if "n \<in> {51, 52, 54, 55, 56, 57, 58, 59, 60, 61, 62, 63}" for n :: nat
      using that by (auto simp add: possible_bit_word)
    then show ?thesis
      unfolding bit_eq_iff [of "?word AND kJpegSignature"] bit_and_iff bit_kJpegSignature
      by blast
  qed
  also have "\<dots> \<longleftrightarrow> buf ! 0 = 0xFF \<and> bit (buf ! 1) 3 \<and> bit (buf ! 1) 4 \<and> bit (buf ! 1) 6 \<and> bit (buf ! 1) 7"
    unfolding bit_header_fold byte_all_ones using assms by auto
  finally show ?thesis .
qed

lemma jpeg_prefix_header:
  assumes "take 2 contents = [0xFF, 0xD8 :: uint8_t]"
  shows "fold (\<lambda>c word. push_bit kByteShift word OR ucast c)
           (take 8 contents @ replicate (8 - length contents) 0) (0 :: uint64_t)
           AND kJpegSignature = kJpegSignature"
proof -
  have "length (take 2 contents) = 2"
    by (simp only: assms) simp
  then have l: "2 \<le> length contents"
    by simp
  have "take 2 contents ! 0 = 0xFF" and "take 2 contents ! 1 = 0xD8"
    by (simp_all only: assms) simp_all
  then have "contents ! 0 = 0xFF" and "contents ! 1 = 0xD8"
    by simp_all
  with l have "(take 8 contents @ replicate (8 - length contents) 0) ! 0 = 0xFF"
    and "(take 8 contents @ replicate (8 - length contents) 0) ! 1 = 0xD8"
    by (auto simp add: nth_append)
  moreover have "length (take 8 contents @ replicate (8 - length contents) (0 :: uint8_t)) = 8"
    by simp
  ultimately show ?thesis
    by (simp only: masked_jpeg_iff) simp
qed

text \<open>
  What the masked comparison of \<open>GetImageType\<close> tests on a readable file: the first
  header byte is \<open>FF\<close> and the second has the four bits of \<open>D8\<close> set.
\<close>

lemma GetImageType_kJpeg_iff:
  assumes "fs filename = Some (Readable contents)"
  shows "GetImageType fs filename = kJpeg \<longleftrightarrow>
           (take 8 contents @ replicate (8 - length contents) 0) ! 0 = 0xFF
         \<and> bit ((take 8 contents @ replicate (8 - length contents) 0) ! 1) 3
         \<and> bit ((take 8 contents @ replicate (8 - length contents) 0) ! 1) 4
         \<and> bit ((take 8 contents @ replicate (8 - length contents) 0) ! 1) 6
         \<and> bit ((take 8 contents @ replicate (8 - length contents) 0) ! 1) 7"
proof -
  define buf where "buf = take 8 contents @ replicate (8 - length contents) (0 :: uint8_t)"
  have l: "length buf = 8"
    by (simp add: buf_def)
  have "fold (\<lambda>c word. push_bit kByteShift word OR ucast c) buf (0 :: uint64_t) \<noteq> kPngSignature"
    if "buf ! 0 = 0xFF"
  proof -
    from that l have "bit (fold (\<lambda>c word. push_bit kByteShift word OR ucast c) buf (0 :: uint64_t)) 62"
      by (simp add: bit_header_fold)
    moreover have "\<not> bit kPngSignature 62"
      by (simp add: kPngSignature_def)
    ultimately show ?thesis
      by metis
  qed
  then show ?thesis
    unfolding GetImageType_readable [of fs filename contents, OF assms]
    using masked_jpeg_iff [OF l]
    by (auto simp add: Let_def buf_def [symmetric])
qed

section \<open>Claims about the format sniffer\<close>

text \<open>
  C2. The claim says that a header is JPEG exactly when its first two bytes are
  \<open>FF D8\<close>. The source tests \<open>(word & kJpegSignature) == kJpegSignature\<close>, which uses
  the signature as its own mask: bits that are zero in \<open>D8\<close> are not compared. The
  header \<open>FF D9 00 00 00 00 00 00\<close>, whose first two bytes are not \<open>FF D8\<close>, is
  classified as JPEG, and so is \<open>FF FF 00 00 00 00 00 00\<close>.
\<close>

theorem GetImageType_accepts_FFD9:
  "GetImageType [''eoi.bin'' \<mapsto> Readable [0xFF, 0xD9, 0, 0, 0, 0, 0, 0]] ''eoi.bin'' = kJpeg
   \<and> GetImageType [''ones.bin'' \<mapsto> Readable [0xFF, 0xFF, 0, 0, 0, 0, 0, 0]] ''ones.bin'' = kJpeg"
  by (simp add: GetImageType_eval)

text \<open>
  C3, as amended. A file that does not exist or cannot be opened is \<open>Unknown\<close>. A file
  with fewer than 8 bytes is classified as the same bytes followed by zero bytes up
  to 8 would be: it is never PNG, it is \<open>Unknown\<close> when it has fewer than 2 bytes, and
  it is JPEG when it begins with \<open>FF D8\<close>.
\<close>

theorem GetImageType_short_file:
  "(fs filename = None \<or> fs filename = Some Unreadable \<longrightarrow> GetImageType fs filename = kUnknown)
   \<and> (fs filename = Some (Readable contents) \<and> length contents < 8 \<longrightarrow>
        GetImageType (fs(filename \<mapsto> Readable (contents @ replicate (8 - length contents) 0)))
          filename = GetImageType fs filename
        \<and> GetImageType fs filename \<noteq> kPng
        \<and> (length contents < 2 \<longrightarrow> GetImageType fs filename = kUnknown)
        \<and> (take 2 contents = [0xFF, 0xD8] \<longrightarrow> GetImageType fs filename = kJpeg))"
proof (intro conjI impI)
  assume "fs filename = None \<or> fs filename = Some Unreadable"
  then show "GetImageType fs filename = kUnknown"
    by (auto simp add: GetImageType_def)
next
  assume a: "fs filename = Some (Readable contents) \<and> length contents < 8"
  then have r: "fs filename = Some (Readable contents)" and l: "length contents < 8"
    by simp_all
  define padded where "padded = contents @ replicate (8 - length contents) 0"
  have p: "(fs(filename \<mapsto> Readable padded)) filename = Some (Readable padded)"
    by simp
  note short = GetImageType_readable [of fs filename contents, OF r]
  note long = GetImageType_readable [of "fs(filename \<mapsto> Readable padded)" filename padded, OF p]
  show "GetImageType (fs(filename \<mapsto> Readable (contents @ replicate (8 - length contents) 0)))
          filename = GetImageType fs filename"
    unfolding short long [unfolded padded_def] padded_header [OF l] ..
  show n: "GetImageType fs filename \<noteq> kPng"
    unfolding short using short_header_not_png [OF l]
    by (simp add: Let_def)
  {
    assume "length contents < 2"
    then show "GetImageType fs filename = kUnknown"
      unfolding short
      using short_header_not_png [OF l] very_short_header_not_jpeg [of contents]
      by (simp add: Let_def)
  }
  {
    assume "take 2 contents = [0xFF, 0xD8]"
    then show "GetImageType fs filename = kJpeg"
      unfolding short
      using short_header_not_png [OF l] jpeg_prefix_header [of contents]
      by (simp add: Let_def)
  }
qed

theorem GetImageType_short_file_witness:
  "GetImageType Map.empty ''gone.png'' = kUnknown
   \<and> GetImageType [''locked.png'' \<mapsto> Unreadable] ''locked.png'' = kUnknown
   \<and> GetImageType [''one.bin'' \<mapsto> Readable [0xFF]] ''one.bin'' = kUnknown
   \<and> GetImageType [''three.jpg'' \<mapsto> Readable [0xFF, 0xD8, 0xFF]] ''three.jpg'' = kJpeg
   \<and> GetImageType [''seven.png'' \<mapsto> Readable [0x89, 0x50, 0x4E, 0x47, 0x0D, 0x0A, 0x1A]]
        ''seven.png'' \<noteq> kPng"
  using GetImageType_short_file [of Map.empty "''gone.png''"]
        GetImageType_short_file [of "[''locked.png'' \<mapsto> Unreadable]" "''locked.png''"]
        GetImageType_short_file [of "[''one.bin'' \<mapsto> Readable [0xFF]]" "''one.bin''" "[0xFF]"]
        GetImageType_short_file [of "[''three.jpg'' \<mapsto> Readable [0xFF, 0xD8, 0xFF]]"
                                    "''three.jpg''" "[0xFF, 0xD8, 0xFF]"]
        GetImageType_short_file [of "[''seven.png'' \<mapsto> Readable [0x89, 0x50, 0x4E, 0x47, 0x0D, 0x0A, 0x1A]]"
                                    "''seven.png''" "[0x89, 0x50, 0x4E, 0x47, 0x0D, 0x0A, 0x1A]"]
  by simp

text \<open>
  C3 as stated fails: a readable file of two bytes, \<open>FF D8\<close>, has fewer than 8 bytes
  and is classified as JPEG, not \<open>Unknown\<close>.
\<close>

theorem GetImageType_two_byte_file_counterexample:
  "length [0xFF, 0xD8 :: uint8_t] < 8
   \<and> GetImageType [''tiny.jpg'' \<mapsto> Readable [0xFF, 0xD8]] ''tiny.jpg'' \<noteq> kUnknown"
  by (simp add: GetImageType_eval)

section \<open>The loops of Merge\<close>

lemma width_view_set [simp]: "width (view_set img col row p) = width img"
  by (simp add: view_set_def)

lemma height_view_set [simp]: "height (view_set img col row p) = height img"
  by (simp add: view_set_def)

lemma well_formed_view_set [simp]:
  assumes "well_formed img"
  shows "well_formed (view_set img col row p)"
proof (cases "row < length (rows img)")
  case True
  then have "length (rows img ! row) = width img"
    using assms by (simp add: well_formed_def list_all_length)
  with assms True show ?thesis
    by (auto simp add: well_formed_def view_set_def list_all_length nth_list_update)
next
  case False
  with assms show ?thesis
    by (simp add: well_formed_def view_set_def list_update_beyond)
qed

lemma view_at_view_set:
  assumes "well_formed img" and "row < height img" and "col < width img"
  shows "view_at (view_set img col row p) c r =
           (if c = col \<and> r = row then p else view_at img c r)"
proof -
  from assms have "row < length (rows img)" and "col < length (rows img ! row)"
    by (auto simp add: well_formed_def list_all_length)
  then show ?thesis
    by (auto simp add: view_at_def view_set_def nth_list_update)
qed

lemma merge_cols_inv:
  assumes "well_formed output_img" and "row < height output_img"
  shows "width (merge_cols secret_img row col output_img) = width output_img
       \<and> height (merge_cols secret_img row col output_img) = height output_img
       \<and> well_formed (merge_cols secret_img row col output_img)
       \<and> (\<forall>r c. view_at (merge_cols secret_img row col output_img) c r =
             (if r = row \<and> col \<le> c \<and> c < width output_img then
                (if row \<ge> height secret_img \<or> c \<ge> width secret_img
                 then MergePixels (view_at output_img c r) kBlackPixel
                 else MergePixels (view_at output_img c r) (view_at secret_img c r))
              else view_at output_img c r))"
  using assms
proof (induction secret_img row col output_img rule: merge_cols.induct)
  case (1 secret_img row col output_img)
  show ?case
  proof (cases "col < width output_img")
    case False
    with "1.prems" show ?thesis
      by (subst (1 2 3 4) merge_cols.simps) auto
  next
    case True
    define p where "p = (if row \<ge> height secret_img \<or> col \<ge> width secret_img
                 then MergePixels (view_at output_img col row) kBlackPixel
                 else MergePixels (view_at output_img col row) (view_at secret_img col row))"
    define out' where "out' = view_set output_img col row p"
    have step: "merge_cols secret_img row col output_img = merge_cols secret_img row (col + 1) out'"
      using True by (subst merge_cols.simps) (simp add: out'_def p_def)
    have arg: "(if row \<ge> height secret_img \<or> col \<ge> width secret_img then
             view_set output_img col row
               (MergePixels (view_at output_img col row) kBlackPixel)
           else
             view_set output_img col row
               (MergePixels (view_at output_img col row) (view_at secret_img col row))) = out'"
      by (simp add: out'_def p_def)
    have wf': "well_formed out'" and h': "row < height out'"
      using "1.prems" by (simp_all add: out'_def)
    note IH = "1.IH" [OF True, unfolded arg, OF wf' h']
    have v: "view_at out' c r = (if c = col \<and> r = row then p else view_at output_img c r)" for c r
      unfolding out'_def using "1.prems" True by (rule view_at_view_set)
    have w: "width out' = width output_img" and h: "height out' = height output_img"
      by (simp_all add: out'_def)
    have "view_at (merge_cols secret_img row (col + 1) out') c r =
             (if r = row \<and> col \<le> c \<and> c < width output_img then
                (if row \<ge> height secret_img \<or> c \<ge> width secret_img
                 then MergePixels (view_at output_img c r) kBlackPixel
                 else MergePixels (view_at output_img c r) (view_at secret_img c r))
              else view_at output_img c r)" for r c
    proof (cases "c = col \<and> r = row")
      case True
      then have "view_at (merge_cols secret_img row (col + 1) out') c r = p"
        using IH by (simp add: v)
      with True \<open>col < width output_img\<close> show ?thesis
        by (simp add: p_def)
    next
      case False
      then have e: "view_at out' c r = view_at output_img c r"
        unfolding v by auto
      from False have q: "(r = row \<and> col + 1 \<le> c \<and> c < width output_img)
                          = (r = row \<and> col \<le> c \<and> c < width output_img)"
        by auto
      from IH have "view_at (merge_cols secret_img row (col + 1) out') c r =
             (if r = row \<and> col + 1 \<le> c \<and> c < width out' then
                (if row \<ge> height secret_img \<or> c \<ge> width secret_img
                 then MergePixels (view_at out' c r) kBlackPixel
                 else MergePixels (view_at out' c r) (view_at secret_img c r))
              else view_at out' c r)"
        by blast
      then show ?thesis
        unfolding w e q .
    qed
    with IH show ?thesis
      unfolding step by (simp add: w h)
  qed
qed

lemma merge_rows_inv:
  assumes "well_formed output_img"
  shows "width (merge_rows secret_img row output_img) = width output_img
       \<and> height (merge_rows secret_img row output_img) = height output_img
       \<and> well_formed (merge_rows secret_img row output_img)
       \<and> (\<forall>r c. view_at (merge_rows secret_img row output_img) c r =
             (if row \<le> r \<and> r < height output_img \<and> c < width output_img then
                (if r \<ge> height secret_img \<or> c \<ge> width secret_img
                 then MergePixels (view_at output_img c r) kBlackPixel
                 else MergePixels (view_at output_img c r) (view_at secret_img c r))
              else view_at output_img c r))"
  using assms
proof (induction secret_img row output_img rule: merge_rows.induct)
  case (1 secret_img row output_img)
  show ?case
  proof (cases "row < height output_img")
    case False
    with "1.prems" show ?thesis
      by (subst (1 2 3 4) merge_rows.simps) auto
  next
    case True
    define out' where "out' = merge_cols secret_img row 0 output_img"
    have step: "merge_rows secret_img row output_img = merge_rows secret_img (row + 1) out'"
      using True by (subst merge_rows.simps) (simp add: out'_def)
    note cols = merge_cols_inv [OF "1.prems" True, of secret_img 0, folded out'_def]
    from cols have w: "width out' = width output_img" and h: "height out' = height output_img"
      and wf': "well_formed out'"
      by simp_all
    from cols have v: "view_at out' c r =
             (if r = row \<and> c < width output_img then
                (if row \<ge> height secret_img \<or> c \<ge> width secret_img
                 then MergePixels (view_at output_img c r) kBlackPixel
                 else MergePixels (view_at output_img c r) (view_at secret_img c r))
              else view_at output_img c r)" for c r
      by simp
    note IH = "1.IH" [OF True, folded out'_def, OF wf']
    have "view_at (merge_rows secret_img (row + 1) out') c r =
             (if row \<le> r \<and> r < height output_img \<and> c < width output_img then
                (if r \<ge> height secret_img \<or> c \<ge> width secret_img
                 then MergePixels (view_at output_img c r) kBlackPixel
                 else MergePixels (view_at output_img c r) (view_at secret_img c r))
              else view_at output_img c r)" for r c
    proof -
      from IH have i: "view_at (merge_rows secret_img (row + 1) out') c r =
             (if row + 1 \<le> r \<and> r < height out' \<and> c < width out' then
                (if r \<ge> height secret_img \<or> c \<ge> width secret_img
                 then MergePixels (view_at out' c r) kBlackPixel
                 else MergePixels (view_at out' c r) (view_at secret_img c r))
              else view_at out' c r)"
        by blast
      show ?thesis
      proof (cases "r = row")
        case True
        with \<open>row < height output_img\<close> show ?thesis
          unfolding i v by simp
      next
        case False
        then have e: "view_at out' c r = view_at output_img c r"
          unfolding v by simp
        from False have q: "(row + 1 \<le> r \<and> r < height output_img \<and> c < width output_img)
                            = (row \<le> r \<and> r < height output_img \<and> c < width output_img)"
          by auto
        show ?thesis
          unfolding i w h e q ..
      qed
    qed
    with IH show ?thesis
      unfolding step by (simp add: w h)
  qed
qed

lemma merge_black_pixel:
  "MergePixels p kBlackPixel = rgb8_pixel_t (red p AND 0xF0) (green p AND 0xF0) (blue p AND 0xF0)"
  by (cases p) (simp add: kBlackPixel_def MergePixels_channels)

lemma Merge_success:
  assumes "Merge gil fs cover secret outfile = (Returned kSuccess, fs')"
  shows "\<exists>cover_img secret_img bytes.
           ReadImage gil fs cover (GetImageType fs cover) = Some cover_img
         \<and> ReadImage gil fs secret (GetImageType fs secret) = Some secret_img
         \<and> write_view gil png_tag (merge_rows secret_img 0 cover_img) = Some bytes
         \<and> fs' = fs(outfile \<mapsto> Readable bytes)"
  using assms
  by (auto simp add: Merge_def Let_def WriteImage_def split: if_splits option.splits)

section \<open>The extension test\<close>

lemma ends_with_iff_suffix: "ends_with filename s \<longleftrightarrow> suffix s filename"
proof
  assume "ends_with filename s"
  then have "drop (length filename - length s) filename = s"
    by (simp add: ends_with_def)
  then have "filename = take (length filename - length s) filename @ s"
    by (metis append_take_drop_id)
  then show "suffix s filename"
    by (rule suffixI)
next
  assume "suffix s filename"
  then obtain stem where "filename = stem @ s"
    by (rule suffixE)
  then show "ends_with filename s"
    by (simp add: ends_with_def)
qed

lemma HasJpegExtension_iff:
  "HasJpegExtension filename \<longleftrightarrow>
     suffix ''.jpg'' filename \<or> suffix ''.jpeg'' filename
     \<or> suffix ''.JPG'' filename \<or> suffix ''.JPEG'' filename"
  by (simp add: HasJpegExtension_def kExtensions_def ends_with_iff_suffix)

lemma mixed_case_extension: "suffix ''.Jpg'' filename \<Longrightarrow> \<not> HasJpegExtension filename"
  by (auto simp add: HasJpegExtension_iff suffix_def)

lemma Unmerge_success:
  assumes "Unmerge gil fs secret outfile = (Returned kSuccess, fs')"
  shows "\<exists>secret_img bytes.
           ReadImage gil fs secret (GetImageType fs secret) = Some secret_img
         \<and> write_view gil (if HasJpegExtension outfile then jpeg_tag else png_tag)
              (unmerge_rows secret_img 0 secret_img) = Some bytes
         \<and> fs' = fs(outfile \<mapsto> Readable bytes)"
  using assms
  by (auto simp add: Unmerge_def Let_def WriteImage_def split: if_splits option.splits)

section \<open>The example inputs evaluated\<close>

lemma example_types:
  "GetImageType example_fs ''cover.jpg'' = kJpeg"
  "GetImageType example_fs ''secret.png'' = kPng"
  by (simp_all add: example_fs_def example_jpeg_bytes_def example_png_bytes_def GetImageType_eval)

lemma example_reads:
  "ReadImage example_codec example_fs ''cover.jpg'' kJpeg = Some example_cover"
  "ReadImage example_codec example_fs ''secret.png'' kPng = Some example_secret"
  by (simp_all add: ReadImage_def example_fs_def example_codec_def example_jpeg_bytes_def)

lemma example_exists:
  "example_fs ''cover.jpg'' \<noteq> None" "example_fs ''secret.png'' \<noteq> None"
  by (simp_all add: example_fs_def)

lemma example_well_formed: "well_formed example_cover" "well_formed example_secret"
  by (simp_all add: well_formed_def example_cover_def example_secret_def)

lemma example_Merge_succeeds:
  "fst (Merge example_codec example_fs ''cover.jpg'' ''secret.png'' outfile) = Returned kSuccess"
  by (simp add: Merge_def Let_def example_types example_reads example_exists WriteImage_def
        example_cover_def example_secret_def)
     (simp add: example_codec_def)

lemma example_Unmerge_succeeds:
  "fst (Unmerge example_codec example_fs ''secret.png'' outfile) = Returned kSuccess"
  by (simp add: Unmerge_def Let_def example_types example_reads example_exists WriteImage_def)
     (simp add: example_codec_def)

section \<open>Claims about Merge and Unmerge\<close>

text \<open>
  C6. When cover and secret exist, classify as JPEG or PNG and decode to grids,
  \<open>Merge\<close> returns \<open>InvalidDimensions\<close> exactly when the secret grid is higher or
  wider than the cover grid (equal dimensions pass), and a call that returns
  \<open>InvalidDimensions\<close> leaves the file system as it was: nothing is written to the
  output path.
\<close>

theorem Merge_invalid_dimensions:
  assumes "fs cover \<noteq> None" and "fs secret \<noteq> None"
      and "GetImageType fs cover \<noteq> kUnknown" and "GetImageType fs secret \<noteq> kUnknown"
      and "ReadImage gil fs cover (GetImageType fs cover) = Some cover_img"
      and "ReadImage gil fs secret (GetImageType fs secret) = Some secret_img"
  shows "(fst (Merge gil fs cover secret outfile) = Returned kInvalidDimensions
           \<longleftrightarrow> height secret_img > height cover_img \<or> width secret_img > width cover_img)
       \<and> (fst (Merge gil fs cover secret outfile) = Returned kInvalidDimensions
           \<longrightarrow> snd (Merge gil fs cover secret outfile) = fs)"
  using assms
  by (auto simp add: Merge_def Let_def WriteImage_def split: option.splits)

theorem Merge_invalid_dimensions_witness:
  "fst (Merge example_codec example_fs ''secret.png'' ''cover.jpg'' ''out.png'')
     = Returned kInvalidDimensions
   \<and> snd (Merge example_codec example_fs ''secret.png'' ''cover.jpg'' ''out.png'') = example_fs
   \<and> fst (Merge example_codec example_fs ''cover.jpg'' ''secret.png'' ''out.png'')
     \<noteq> Returned kInvalidDimensions"
  using Merge_invalid_dimensions
          [of example_fs "''secret.png''" "''cover.jpg''" example_codec example_secret
              example_cover "''out.png''"]
        Merge_invalid_dimensions
          [of example_fs "''cover.jpg''" "''secret.png''" example_codec example_cover
              example_secret "''out.png''"]
  by (simp add: example_types example_reads example_exists example_cover_def example_secret_def)

text \<open>
  C7. On a successful \<open>Merge\<close> of decoded grids whose rows match their declared
  dimensions, the grid built by the loops and handed to the encoder has the
  dimensions of the cover, and at every coordinate inside it the pixel
  is \<open>MergePixels\<close> of the cover pixel with the black pixel when the row or the column
  lies outside the secret grid (its channels are then the cover channels masked with
  \<open>0xF0\<close>), and \<open>MergePixels\<close> of the cover pixel with the secret pixel at the same
  coordinate otherwise.
\<close>

theorem Merge_output_grid:
  assumes "Merge gil fs cover secret outfile = (Returned kSuccess, fs')"
      and "ReadImage gil fs cover (GetImageType fs cover) = Some cover_img"
      and "ReadImage gil fs secret (GetImageType fs secret) = Some secret_img"
      and "well_formed cover_img" and "well_formed secret_img"
  shows "\<exists>output_img bytes.
           output_img = merge_rows secret_img 0 cover_img
         \<and> write_view gil png_tag output_img = Some bytes
         \<and> fs' = fs(outfile \<mapsto> Readable bytes)
         \<and> width output_img = width cover_img
         \<and> height output_img = height cover_img
         \<and> well_formed output_img
         \<and> (\<forall>row < height output_img. \<forall>col < width output_img.
               view_at output_img col row =
                 (if row \<ge> height secret_img \<or> col \<ge> width secret_img
                  then MergePixels (view_at cover_img col row) kBlackPixel
                  else MergePixels (view_at cover_img col row) (view_at secret_img col row))
             \<and> (row \<ge> height secret_img \<or> col \<ge> width secret_img \<longrightarrow>
                  view_at output_img col row =
                    rgb8_pixel_t (red (view_at cover_img col row) AND 0xF0)
                                 (green (view_at cover_img col row) AND 0xF0)
                                 (blue (view_at cover_img col row) AND 0xF0)))"
proof -
  from Merge_success [OF assms(1)] assms(2,3)
  obtain bytes where b: "write_view gil png_tag (merge_rows secret_img 0 cover_img) = Some bytes"
    and f: "fs' = fs(outfile \<mapsto> Readable bytes)"
    by auto
  note inv = merge_rows_inv [OF assms(4), of secret_img 0]
  show ?thesis
  proof (intro exI conjI allI impI)
    show "merge_rows secret_img 0 cover_img = merge_rows secret_img 0 cover_img"
      by (rule refl)
    show "write_view gil png_tag (merge_rows secret_img 0 cover_img) = Some bytes"
      by (rule b)
    show "fs' = fs(outfile \<mapsto> Readable bytes)"
      by (rule f)
    show "width (merge_rows secret_img 0 cover_img) = width cover_img"
      and "height (merge_rows secret_img 0 cover_img) = height cover_img"
      and "well_formed (merge_rows secret_img 0 cover_img)"
      using inv by simp_all
  next
    fix row col
    assume "row < height (merge_rows secret_img 0 cover_img)"
      and "col < width (merge_rows secret_img 0 cover_img)"
    with inv have r: "row < height cover_img" and c: "col < width cover_img"
      by simp_all
    with inv show v: "view_at (merge_rows secret_img 0 cover_img) col row =
                 (if row \<ge> height secret_img \<or> col \<ge> width secret_img
                  then MergePixels (view_at cover_img col row) kBlackPixel
                  else MergePixels (view_at cover_img col row) (view_at secret_img col row))"
      by simp
    assume "row \<ge> height secret_img \<or> col \<ge> width secret_img"
    then show "view_at (merge_rows secret_img 0 cover_img) col row =
                    rgb8_pixel_t (red (view_at cover_img col row) AND 0xF0)
                                 (green (view_at cover_img col row) AND 0xF0)
                                 (blue (view_at cover_img col row) AND 0xF0)"
      unfolding v by (simp only: merge_black_pixel if_True)
  qed
qed

theorem Merge_output_grid_witness:
  "fst (Merge example_codec example_fs ''cover.jpg'' ''secret.png'' ''out.png'') = Returned kSuccess
   \<and> well_formed example_cover \<and> well_formed example_secret
   \<and> (\<exists>output_img bytes.
         output_img = merge_rows example_secret 0 example_cover
       \<and> write_view example_codec png_tag output_img = Some bytes
       \<and> snd (Merge example_codec example_fs ''cover.jpg'' ''secret.png'' ''out.png'')
           = example_fs(''out.png'' \<mapsto> Readable bytes)
       \<and> width output_img = 2 \<and> height output_img = 2
       \<and> view_at output_img 0 0 = rgb8_pixel_t 0x1A 0x3C 0x5E
       \<and> view_at output_img 1 0 = rgb8_pixel_t 0xF0 0xF0 0xF0
       \<and> view_at output_img 0 1 = rgb8_pixel_t 0x00 0x00 0x00
       \<and> view_at output_img 1 1 = rgb8_pixel_t 0x90 0xB0 0xD0)"
proof -
  have s: "fst (Merge example_codec example_fs ''cover.jpg'' ''secret.png'' ''out.png'')
             = Returned kSuccess"
    by (rule example_Merge_succeeds)
  then have m: "Merge example_codec example_fs ''cover.jpg'' ''secret.png'' ''out.png''
          = (Returned kSuccess,
             snd (Merge example_codec example_fs ''cover.jpg'' ''secret.png'' ''out.png''))"
    by (simp add: prod_eq_iff)
  have c: "ReadImage example_codec example_fs ''cover.jpg'' (GetImageType example_fs ''cover.jpg'')
             = Some example_cover"
    and x: "ReadImage example_codec example_fs ''secret.png'' (GetImageType example_fs ''secret.png'')
             = Some example_secret"
    by (simp_all add: example_types example_reads)
  from Merge_output_grid [OF m c x example_well_formed]
  obtain output_img bytes where
    o: "output_img = merge_rows example_secret 0 example_cover"
    and w: "write_view example_codec png_tag output_img = Some bytes"
    and f: "snd (Merge example_codec example_fs ''cover.jpg'' ''secret.png'' ''out.png'')
              = example_fs(''out.png'' \<mapsto> Readable bytes)"
    and d: "width output_img = width example_cover" "height output_img = height example_cover"
    and v: "\<forall>row < height output_img. \<forall>col < width output_img.
               view_at output_img col row =
                 (if row \<ge> height example_secret \<or> col \<ge> width example_secret
                  then MergePixels (view_at example_cover col row) kBlackPixel
                  else MergePixels (view_at example_cover col row) (view_at example_secret col row))
             \<and> (row \<ge> height example_secret \<or> col \<ge> width example_secret \<longrightarrow>
                  view_at output_img col row =
                    rgb8_pixel_t (red (view_at example_cover col row) AND 0xF0)
                                 (green (view_at example_cover col row) AND 0xF0)
                                 (blue (view_at example_cover col row) AND 0xF0))"
    by blast
  from d have d2: "width output_img = 2" "height output_img = 2"
    by (simp_all add: example_cover_def)
  from v d2 have "view_at output_img 0 0 = rgb8_pixel_t 0x1A 0x3C 0x5E"
    and "view_at output_img 1 0 = rgb8_pixel_t 0xF0 0xF0 0xF0"
    and "view_at output_img 0 1 = rgb8_pixel_t 0x00 0x00 0x00"
    and "view_at output_img 1 1 = rgb8_pixel_t 0x90 0xB0 0xD0"
    by (simp_all add: example_cover_def example_secret_def view_at_def MergePixels_channels
          kBlackPixel_def)
  with s o w f d2 example_well_formed show ?thesis
    by blast
qed

text \<open>
  C8. On every successful \<open>Merge\<close> the merged grid is encoded with the PNG codec and
  the bytes are stored at the output path, whatever the extension of that path and
  whatever the formats of the two inputs.
\<close>

theorem Merge_writes_png:
  assumes "Merge gil fs cover secret outfile = (Returned kSuccess, fs')"
  shows "\<exists>cover_img secret_img bytes.
           ReadImage gil fs cover (GetImageType fs cover) = Some cover_img
         \<and> ReadImage gil fs secret (GetImageType fs secret) = Some secret_img
         \<and> write_view gil png_tag (merge_rows secret_img 0 cover_img) = Some bytes
         \<and> fs' = fs(outfile \<mapsto> Readable bytes)"
  using assms by (rule Merge_success)

theorem Merge_writes_png_witness:
  "HasJpegExtension ''out.jpg''
   \<and> GetImageType example_fs ''cover.jpg'' = kJpeg
   \<and> fst (Merge example_codec example_fs ''cover.jpg'' ''secret.png'' ''out.jpg'') = Returned kSuccess
   \<and> (\<exists>cover_img secret_img bytes.
         write_view example_codec png_tag (merge_rows secret_img 0 cover_img) = Some bytes
       \<and> snd (Merge example_codec example_fs ''cover.jpg'' ''secret.png'' ''out.jpg'')
           = example_fs(''out.jpg'' \<mapsto> Readable bytes))"
proof -
  have "Merge example_codec example_fs ''cover.jpg'' ''secret.png'' ''out.jpg''
          = (Returned kSuccess,
             snd (Merge example_codec example_fs ''cover.jpg'' ''secret.png'' ''out.jpg''))"
    using example_Merge_succeeds by (simp add: prod_eq_iff)
  from Merge_writes_png [OF this]
  have "\<exists>cover_img secret_img bytes.
         write_view example_codec png_tag (merge_rows secret_img 0 cover_img) = Some bytes
       \<and> snd (Merge example_codec example_fs ''cover.jpg'' ''secret.png'' ''out.jpg'')
           = example_fs(''out.jpg'' \<mapsto> Readable bytes)"
    by blast
  moreover have "HasJpegExtension ''out.jpg''"
    by (simp add: HasJpegExtension_iff suffix_to_prefix)
  ultimately show ?thesis
    using example_Merge_succeeds example_types(1) by blast
qed

text \<open>
  C9. On every successful \<open>Unmerge\<close> the output is encoded with the JPEG codec
  exactly when the output path ends with \<open>.jpg\<close>, \<open>.jpeg\<close>, \<open>.JPG\<close> or \<open>.JPEG\<close>, and
  with the PNG codec for every other path; a path ending with the mixed-case \<open>.Jpg\<close> is
  written as PNG.
\<close>

theorem Unmerge_output_format:
  assumes "Unmerge gil fs secret outfile = (Returned kSuccess, fs')"
  shows "(\<exists>secret_img bytes.
            ReadImage gil fs secret (GetImageType fs secret) = Some secret_img
          \<and> write_view gil
              (if suffix ''.jpg'' outfile \<or> suffix ''.jpeg'' outfile
                  \<or> suffix ''.JPG'' outfile \<or> suffix ''.JPEG'' outfile
               then jpeg_tag else png_tag)
              (unmerge_rows secret_img 0 secret_img) = Some bytes
          \<and> fs' = fs(outfile \<mapsto> Readable bytes))
       \<and> (suffix ''.Jpg'' outfile \<longrightarrow>
            (\<exists>secret_img bytes.
               ReadImage gil fs secret (GetImageType fs secret) = Some secret_img
             \<and> write_view gil png_tag (unmerge_rows secret_img 0 secret_img) = Some bytes
             \<and> fs' = fs(outfile \<mapsto> Readable bytes)))"
proof -
  from Unmerge_success [OF assms] obtain secret_img bytes where
    r: "ReadImage gil fs secret (GetImageType fs secret) = Some secret_img"
    and w: "write_view gil (if HasJpegExtension outfile then jpeg_tag else png_tag)
          (unmerge_rows secret_img 0 secret_img) = Some bytes"
    and f: "fs' = fs(outfile \<mapsto> Readable bytes)"
    by blast
  from r w f have "\<exists>secret_img bytes.
            ReadImage gil fs secret (GetImageType fs secret) = Some secret_img
          \<and> write_view gil
              (if suffix ''.jpg'' outfile \<or> suffix ''.jpeg'' outfile
                  \<or> suffix ''.JPG'' outfile \<or> suffix ''.JPEG'' outfile
               then jpeg_tag else png_tag)
              (unmerge_rows secret_img 0 secret_img) = Some bytes
          \<and> fs' = fs(outfile \<mapsto> Readable bytes)"
    unfolding HasJpegExtension_iff by blast
  moreover have "\<exists>secret_img bytes.
               ReadImage gil fs secret (GetImageType fs secret) = Some secret_img
             \<and> write_view gil png_tag (unmerge_rows secret_img 0 secret_img) = Some bytes
             \<and> fs' = fs(outfile \<mapsto> Readable bytes)" if "suffix ''.Jpg'' outfile"
    using r w f mixed_case_extension [OF that] by auto
  ultimately show ?thesis
    by blast
qed

theorem Unmerge_output_format_witness:
  "fst (Unmerge example_codec example_fs ''secret.png'' ''out.jpg'') = Returned kSuccess
   \<and> (\<exists>secret_img bytes.
         write_view example_codec jpeg_tag (unmerge_rows secret_img 0 secret_img) = Some bytes
       \<and> snd (Unmerge example_codec example_fs ''secret.png'' ''out.jpg'')
           = example_fs(''out.jpg'' \<mapsto> Readable bytes))
   \<and> fst (Unmerge example_codec example_fs ''secret.png'' ''out.Jpg'') = Returned kSuccess
   \<and> (\<exists>secret_img bytes.
         write_view example_codec png_tag (unmerge_rows secret_img 0 secret_img) = Some bytes
       \<and> snd (Unmerge example_codec example_fs ''secret.png'' ''out.Jpg'')
           = example_fs(''out.Jpg'' \<mapsto> Readable bytes))"
proof -
  have j: "Unmerge example_codec example_fs ''secret.png'' ''out.jpg''
          = (Returned kSuccess, snd (Unmerge example_codec example_fs ''secret.png'' ''out.jpg''))"
    and p: "Unmerge example_codec example_fs ''secret.png'' ''out.Jpg''
          = (Returned kSuccess, snd (Unmerge example_codec example_fs ''secret.png'' ''out.Jpg''))"
    using example_Unmerge_succeeds by (simp_all add: prod_eq_iff)
  have sj: "suffix ''.jpg'' ''out.jpg''" and sp: "suffix ''.Jpg'' ''out.Jpg''"
    by (simp_all add: suffix_to_prefix)
  from Unmerge_output_format [OF j] sj
  have "\<exists>secret_img bytes.
         write_view example_codec jpeg_tag (unmerge_rows secret_img 0 secret_img) = Some bytes
       \<and> snd (Unmerge example_codec example_fs ''secret.png'' ''out.jpg'')
           = example_fs(''out.jpg'' \<mapsto> Readable bytes)"
    by auto
  moreover from Unmerge_output_format [OF p] sp
  have "\<exists>secret_img bytes.
         write_view example_codec png_tag (unmerge_rows secret_img 0 secret_img) = Some bytes
       \<and> snd (Unmerge example_codec example_fs ''secret.png'' ''out.Jpg'')
           = example_fs(''out.Jpg'' \<mapsto> Readable bytes)"
    by blast
  ultimately show ?thesis
    using example_Unmerge_succeeds by blast
qed

end
